theory Spec2Isabelle
  imports Main "HOL-Library.AList" "HOL-Library.Char_ord" "HOL-Library.List_Lexorder"
begin

section \<open>Data model of pkg/querymap\<close>

text \<open>
  The package stores every value as a Go \<^verbatim>\<open>any\<close>. The code distinguishes four dynamic
  types by type switch: \<^verbatim>\<open>string\<close>, \<^verbatim>\<open>[]string\<close>, \<^verbatim>\<open>anyList\<close> (\<^verbatim>\<open>[]any\<close>) and
  \<^verbatim>\<open>QueryMap\<close> (\<^verbatim>\<open>map[string]any\<close>). Everything else, the untyped \<^verbatim>\<open>nil\<close> included,
  falls through the switches; \<open>Nil\<close> is the nil interface value and \<open>Other x\<close> any other
  foreign dynamic value.

  A Go map is an association list with pairwise distinct keys. The order of the list
  stands for one (arbitrary) iteration order of the map; \<open>map_of\<close> is the map the list
  denotes. \<^verbatim>\<open>q[key] = x\<close> is \<open>AList.update key x q\<close>, and \<^verbatim>\<open>x, ok := q[key]\<close> is
  \<open>map_of q key\<close>. Every map the package handles is made by \<^verbatim>\<open>newQueryMap\<close> or by a
  map literal; the nil map is not modelled. Strings are byte strings, as in Go.
\<close>

datatype 'o val =
    Str string
  | StrList "string list"
  | AnyList "'o val list"
  | QMap "(string \<times> 'o val) list"
  | Nil
  | Other 'o

type_synonym 'o QueryMap = "(string \<times> 'o val) list"

definition newQueryMap :: "'o QueryMap" where
  "newQueryMap = []"

text \<open>\<^verbatim>\<open>value[valueKey]\<close>: indexing a Go map gives the zero value (nil) for a missing key.\<close>

definition index_map :: "'o QueryMap \<Rightarrow> string \<Rightarrow> 'o val" where
  "index_map q key = (case map_of q key of Some x \<Rightarrow> x | None \<Rightarrow> Nil)"

lemma size_entry_less [termination_simp]:
  "(k, v) \<in> set xs \<Longrightarrow> size v < Suc (size_list (size_prod f size) xs)"
  by (induction xs) auto

section \<open>The merge engine: \<^verbatim>\<open>QueryMap.set\<close>\<close>

text \<open>
  \<^verbatim>\<open>func (q QueryMap) set(key string, untypedValue any) QueryMap\<close>. The method mutates
  the receiver and returns it; the model returns the updated map. The outer case is the
  type switch on the existing entry, the inner cases are the type switches on the
  incoming value. A switch in which no case matches leaves the map as it is. In the last
  case the loop \<^verbatim>\<open>for k, v := range value { entry.set(k, v) }\<close> is the fold over the
  incoming map's entries.
\<close>

function set_qm :: "'o QueryMap \<Rightarrow> string \<Rightarrow> 'o val \<Rightarrow> 'o QueryMap" where
  "set_qm q key untypedValue =
    (case map_of q key of
       None \<Rightarrow> AList.update key untypedValue q
     | Some untypedEntry \<Rightarrow>
        (case untypedEntry of
           Str entry \<Rightarrow>
             (case untypedValue of
                Str v \<Rightarrow> AList.update key (StrList [entry, v]) q
              | StrList v \<Rightarrow> AList.update key (StrList ([entry] @ v)) q
              | AnyList v \<Rightarrow> AList.update key (AnyList ([Str entry] @ v)) q
              | QMap v \<Rightarrow> AList.update key (AnyList [Str entry, QMap v]) q
              | _ \<Rightarrow> q)
         | StrList entry \<Rightarrow>
             (case untypedValue of
                Str v \<Rightarrow> AList.update key (StrList (entry @ [v])) q
              | StrList v \<Rightarrow> AList.update key (StrList (entry @ v)) q
              | AnyList v \<Rightarrow> AList.update key (AnyList (map Str entry @ v)) q
              | QMap v \<Rightarrow> AList.update key (AnyList (map Str entry @ [QMap v])) q
              | _ \<Rightarrow> q)
         | AnyList entry \<Rightarrow>
             (case untypedValue of
                Str v \<Rightarrow> AList.update key (AnyList (entry @ [Str v])) q
              | StrList v \<Rightarrow> AList.update key (AnyList (entry @ map Str v)) q
              | AnyList v \<Rightarrow> AList.update key (AnyList (entry @ v)) q
              | QMap v \<Rightarrow> AList.update key (AnyList (entry @ [QMap v])) q
              | _ \<Rightarrow> q)
         | QMap entry \<Rightarrow>
             (case untypedValue of
                Str v \<Rightarrow> AList.update key (AnyList ([QMap entry] @ [Str v])) q
              | StrList v \<Rightarrow> AList.update key (AnyList ([QMap entry] @ map Str v)) q
              | AnyList v \<Rightarrow> AList.update key (AnyList ([QMap entry] @ v)) q
              | QMap v \<Rightarrow>
                  AList.update key
                    (QMap (fold (\<lambda>kv e. set_qm e (fst kv) (snd kv)) v entry)) q
              | _ \<Rightarrow> q)
         | _ \<Rightarrow> q))"
  by pat_completeness auto
termination
  by (relation "measure (\<lambda>(q, key, v). size v)") (auto simp: size_entry_less less_Suc_eq_le
      intro: size_list_estimation')

declare set_qm.simps [simp del]

section \<open>Library functions the package calls\<close>

text \<open>
  \<^verbatim>\<open>strings.IndexRune(key, '[')\<close> for an ASCII rune: the index of the first byte equal
  to it, or \<open>-1\<close>. Go's \<^verbatim>\<open>int\<close> is modelled as \<open>int\<close>; all indices are bounded by the
  length of the key.
\<close>

fun IndexRune :: "string \<Rightarrow> char \<Rightarrow> int" where
  "IndexRune [] c = -1"
| "IndexRune (x # xs) c =
     (if x = c then 0 else (let r = IndexRune xs c in if r = -1 then -1 else r + 1))"

text \<open>
  Slice expressions on a string. \<^verbatim>\<open>key[:n]\<close> and \<^verbatim>\<open>key[n:]\<close> panic at run time
  (slice bounds out of range) unless \<open>0 \<le> n \<le> len(key)\<close>.
\<close>

datatype panic = SliceBoundsOutOfRange

definition slice_to :: "string \<Rightarrow> int \<Rightarrow> panic + string" where
  "slice_to key n =
     (if 0 \<le> n \<and> n \<le> int (length key) then Inr (take (nat n) key)
      else Inl SliceBoundsOutOfRange)"

definition slice_from :: "string \<Rightarrow> int \<Rightarrow> panic + string" where
  "slice_from key n =
     (if 0 \<le> n \<and> n \<le> int (length key) then Inr (drop (nat n) key)
      else Inl SliceBoundsOutOfRange)"

text \<open>
  \<^verbatim>\<open>strconv.Atoi\<close> of Go's standard library, for a 64-bit \<^verbatim>\<open>int\<close>: an optional sign
  \<^verbatim>\<open>+\<close> or \<^verbatim>\<open>-\<close>, then one or more decimal digits and nothing else; a number outside
  \<open>-2^63 .. 2^63 - 1\<close> is a range error. \<open>None\<close> is \<^verbatim>\<open>err != nil\<close>.
\<close>

definition is_digit :: "char \<Rightarrow> bool" where
  "is_digit c = (CHR ''0'' \<le> c \<and> c \<le> CHR ''9'')"

definition digits_value :: "string \<Rightarrow> int" where
  "digits_value ds = fold (\<lambda>c n. n * 10 + (of_char c - 48)) ds 0"

definition Atoi :: "string \<Rightarrow> int option" where
  "Atoi s =
     (let neg = (case s of c # _ \<Rightarrow> c = CHR ''-'' | [] \<Rightarrow> False);
          ds = (case s of c # r \<Rightarrow> (if c = CHR ''-'' \<or> c = CHR ''+'' then r else s) | [] \<Rightarrow> s)
      in if ds = [] \<or> \<not> list_all is_digit ds then None
         else (let n = digits_value ds in
               if neg then (if n > 2 ^ 63 then None else Some (- n))
               else (if n \<ge> 2 ^ 63 then None else Some n)))"

text \<open>
  The words of the specification for the keys the normalizer folds: a base-10 integer
  literal is an optional sign \<^verbatim>\<open>+\<close> or \<^verbatim>\<open>-\<close> and then one or more decimal digits.
  \<open>literal_value\<close> is the number it denotes. \<^verbatim>\<open>strconv.Atoi\<close> accepts a string exactly
  when it is such a literal and its value is in the range of \<^verbatim>\<open>int\<close>
  (lemma \<open>Atoi_accepts_iff\<close> below).
\<close>

definition integer_literal :: "string \<Rightarrow> bool" where
  "integer_literal s =
     (case s of
        [] \<Rightarrow> False
      | c # r \<Rightarrow> (let ds = (if c = CHR ''-'' \<or> c = CHR ''+'' then r else s)
                 in ds \<noteq> [] \<and> list_all is_digit ds))"

definition literal_value :: "string \<Rightarrow> int" where
  "literal_value s =
     (case s of
        [] \<Rightarrow> 0
      | c # r \<Rightarrow> (if c = CHR ''-'' then - digits_value r
                 else if c = CHR ''+'' then digits_value r
                 else digits_value s))"

section \<open>The numeric-index normalizer\<close>

text \<open>
  The counting loop of \<^verbatim>\<open>NormalizeSlicesNumbersIndexes\<close>:
  \<^verbatim>\<open>for key := range value { total++; if _, err := strconv.Atoi(key); err == nil { keyAreNumbers++ } }\<close>.
  The pair is \<open>(total, keyAreNumbers)\<close>.
\<close>

definition count_keys :: "'o QueryMap \<Rightarrow> int \<times> int" where
  "count_keys value =
     fold (\<lambda>kv (total, keyAreNumbers).
             (total + 1, if Atoi (fst kv) \<noteq> None then keyAreNumbers + 1 else keyAreNumbers))
          value (0, 0)"

text \<open>
  \<^verbatim>\<open>func NormalizeSlicesNumbersIndexes(v any) any\<close>. In the branch where all keys are
  numbers the keys are collected (\<^verbatim>\<open>maps.Keys\<close>), sorted as strings (\<^verbatim>\<open>slices.Sort\<close>,
  bytewise lexicographic order) and the values are appended as they are. Otherwise the
  values of the map are normalized in place. The elements of an \<^verbatim>\<open>anyList\<close> are
  normalized into a new list. Any other value is returned as it is.
\<close>

fun NormalizeSlicesNumbersIndexes :: "'o val \<Rightarrow> 'o val" where
  "NormalizeSlicesNumbersIndexes (Str value) = Str value"
| "NormalizeSlicesNumbersIndexes (StrList value) = StrList value"
| "NormalizeSlicesNumbersIndexes (QMap value) =
     (if fst (count_keys value) = snd (count_keys value)
      then AnyList (map (index_map value) (sort (map fst value)))
      else QMap (map (\<lambda>kv. (fst kv, NormalizeSlicesNumbersIndexes (snd kv))) value))"
| "NormalizeSlicesNumbersIndexes (AnyList value) =
     AnyList (map NormalizeSlicesNumbersIndexes value)"
| "NormalizeSlicesNumbersIndexes v = v"

section \<open>The key-path parser: \<^verbatim>\<open>nestedQuery\<close>\<close>

text \<open>
  \<^verbatim>\<open>func nestedQuery(data QueryMap, key string, value []string) QueryMap\<close>. A slice
  expression that panics ends the call with \<open>Inl\<close>. \<^verbatim>\<open>&&\<close> and \<^verbatim>\<open>||\<close> evaluate from
  the left and stop early, so \<^verbatim>\<open>key[nextStart:]\<close> in the second condition is evaluated
  only when \<^verbatim>\<open>nextStart > nextEnd\<close> and \<^verbatim>\<open>nextEnd != -1\<close>, where it is in range.
\<close>

function nestedQuery :: "'o QueryMap \<Rightarrow> string \<Rightarrow> string list \<Rightarrow> panic + 'o QueryMap" where
  "nestedQuery data key value =
    (let nextStart = IndexRune key CHR ''['';
         nextEnd = IndexRune key CHR '']''
     in case (if nextStart = -1 \<and> nextEnd \<noteq> -1 \<and> int (length key) = nextEnd + 1
                then slice_to key nextEnd
              else if nextStart \<noteq> -1 \<and> nextEnd \<noteq> -1 \<and> nextStart + 1 = nextEnd
                then slice_to key nextStart
              else if nextEnd + 1 = nextStart
                then slice_to key nextEnd
              else if nextStart \<noteq> -1 \<and> nextStart < nextEnd
                then slice_to key nextStart
              else Inr key) of
          Inl p \<Rightarrow> Inl p
        | Inr currentKey \<Rightarrow>
            if (nextStart + 1 = nextEnd \<and> nextEnd + 1 = int (length key))
               \<or> (nextEnd \<noteq> -1 \<and> nextStart > nextEnd
                    \<and> slice_from key nextStart = Inr ''[]''
                    \<and> nextStart + 2 = int (length key))
            then Inr (set_qm data currentKey (StrList value))
            else if nextStart \<noteq> -1 then
              (case (if nextEnd \<noteq> -1 \<and> nextEnd < nextStart
                     then slice_from key (nextEnd + 2)
                     else slice_from key (nextStart + 1)) of
                 Inl p \<Rightarrow> Inl p
               | Inr nextKey \<Rightarrow>
                   (case nestedQuery newQueryMap nextKey value of
                      Inl p \<Rightarrow> Inl p
                    | Inr sub \<Rightarrow> Inr (set_qm data currentKey (QMap sub))))
            else if length value = 1 then Inr (set_qm data currentKey (Str (value ! 0)))
            else Inr (set_qm data currentKey (StrList value)))"
  by pat_completeness auto
termination
proof (relation "measure (\<lambda>(data, key, value). length key)")
  show "wf (measure (\<lambda>(data, key, value). length key))" by simp
next
  fix data :: "'o QueryMap" and key :: string and "value" :: "string list"
    and nextStart nextEnd :: int and currentKey nextKey :: string
  assume s: "nextStart = IndexRune key CHR ''[''"
    and e: "nextEnd = IndexRune key CHR '']''"
    and ne: "nextStart \<noteq> - 1"
    and nk: "(if nextEnd \<noteq> - 1 \<and> nextEnd < nextStart then slice_from key (nextEnd + 2)
              else slice_from key (nextStart + 1)) = Inr nextKey"
  have ge: "IndexRune k c \<ge> -1" for k c
    by (induction k) (auto simp: Let_def)
  have "nextStart \<ge> 0" "nextEnd \<ge> -1"
    using ge [of key "CHR ''[''"] ge [of key "CHR '']''"] s e ne by auto
  then have "length nextKey < length key"
    using nk by (auto simp: slice_from_def split: if_splits)
  then show "((newQueryMap, nextKey, value), data, key, value)
              \<in> measure (\<lambda>(data, key, value). length key)"
    by simp
qed

declare nestedQuery.simps [simp del]

section \<open>The pipeline: \<^verbatim>\<open>FromURL\<close>\<close>

text \<open>
  \<^verbatim>\<open>FromURL\<close> works on \<^verbatim>\<open>URL.Query()\<close>, a \<^verbatim>\<open>url.Values\<close>: a Go map from raw key to
  its list of values. \<open>FromValues\<close> is the body of \<^verbatim>\<open>FromURL\<close> as a function of that
  map, which is an association list here, in some iteration order. \<^verbatim>\<open>maps.Keys\<close> collects its
  keys, \<^verbatim>\<open>slices.Sort\<close> sorts them, and the first loop runs \<^verbatim>\<open>nestedQuery\<close> on the shared
  map for each key in that order; \<^verbatim>\<open>urlQuery[key]\<close> is the list stored at the key (the
  nil slice for a missing one). The second loop normalizes every top-level value.
\<close>

definition index_values :: "(string \<times> string list) list \<Rightarrow> string \<Rightarrow> string list" where
  "index_values urlQuery key = (case map_of urlQuery key of Some v \<Rightarrow> v | None \<Rightarrow> [])"

fun ingest :: "(string \<times> string list) list \<Rightarrow> string list \<Rightarrow> 'o QueryMap \<Rightarrow> panic + 'o QueryMap" where
  "ingest urlQuery [] data = Inr data"
| "ingest urlQuery (key # keys) data =
     (case nestedQuery data key (index_values urlQuery key) of
        Inl p \<Rightarrow> Inl p
      | Inr data' \<Rightarrow> ingest urlQuery keys data')"

definition FromValues :: "(string \<times> string list) list \<Rightarrow> panic + 'o QueryMap" where
  "FromValues urlQuery =
     (case ingest urlQuery (sort (map fst urlQuery)) newQueryMap of
        Inl p \<Rightarrow> Inl p
      | Inr data \<Rightarrow> Inr (map (\<lambda>kv. (fst kv, NormalizeSlicesNumbersIndexes (snd kv))) data))"

text \<open>
  Predicates and builders used to state the properties. \<open>tree_shape\<close> holds of the four
  dynamic types the type switches name. \<open>nest ks v\<close> is the chain of one-entry maps along
  the path \<open>ks\<close> that ends in \<open>v\<close>.
\<close>

fun tree_shape :: "'o val \<Rightarrow> bool" where
  "tree_shape (Str _) = True"
| "tree_shape (StrList _) = True"
| "tree_shape (AnyList _) = True"
| "tree_shape (QMap _) = True"
| "tree_shape _ = False"

fun nest :: "string list \<Rightarrow> 'o val \<Rightarrow> 'o val" where
  "nest [] v = v"
| "nest (k # ks) v = QMap [(k, nest ks v)]"

text \<open>
  \<open>numeric_free v\<close>: no map inside \<open>v\<close> (or \<open>v\<close> itself) has only keys that
  \<^verbatim>\<open>strconv.Atoi\<close> accepts; the empty map has only such keys.
\<close>

fun numeric_free :: "'o val \<Rightarrow> bool" where
  "numeric_free (AnyList xs) = list_all numeric_free xs"
| "numeric_free (QMap m) =
     (\<not> list_all (\<lambda>kv. Atoi (fst kv) \<noteq> None) m \<and> list_all (\<lambda>kv. numeric_free (snd kv)) m)"
| "numeric_free _ = True"

text \<open>
  \<open>closed_brackets key\<close>: every opening bracket of the key has a closing bracket
  somewhere after it.
\<close>

fun closed_brackets :: "string \<Rightarrow> bool" where
  "closed_brackets [] = True"
| "closed_brackets (c # r) = ((c \<noteq> CHR ''['' \<or> CHR '']'' \<in> set r) \<and> closed_brackets r)"

section \<open>Facts about the library functions\<close>

lemma IndexRune_ge: "- 1 \<le> IndexRune k c"
  by (induction k) (auto simp: Let_def)

lemma IndexRune_notin: "c \<notin> set k \<Longrightarrow> IndexRune k c = - 1"
  by (induction k) (auto simp: Let_def)

lemma IndexRune_in: "c \<in> set k \<Longrightarrow> 0 \<le> IndexRune k c \<and> IndexRune k c < int (length k)"
  by (induction k) (auto simp: Let_def)

lemma IndexRune_m1_iff: "IndexRune k c = - 1 \<longleftrightarrow> c \<notin> set k"
  using IndexRune_in [of c k] IndexRune_notin [of c k] by auto

lemma IndexRune_append_notin:
  "c \<notin> set a \<Longrightarrow>
   IndexRune (a @ b) c = (if c \<in> set b then int (length a) + IndexRune b c else - 1)"
  by (induction a) (auto simp: Let_def IndexRune_m1_iff)

lemma IndexRune_append_in: "c \<in> set a \<Longrightarrow> IndexRune (a @ b) c = IndexRune a c"
  by (induction a) (auto simp: Let_def IndexRune_m1_iff)

lemma IndexRune_nth: "c \<in> set k \<Longrightarrow> k ! nat (IndexRune k c) = c"
proof (induction k)
  case Nil
  then show ?case by simp
next
  case (Cons x k)
  show ?case
  proof (cases "x = c")
    case True
    then show ?thesis by simp
  next
    case False
    with Cons.prems have in': "c \<in> set k" by simp
    then have "0 \<le> IndexRune k c" using IndexRune_in by blast
    then have "nat (IndexRune k c + 1) = Suc (nat (IndexRune k c))" by simp
    with False in' Cons.IH show ?thesis
      by (simp add: Let_def IndexRune_m1_iff)
  qed
qed

lemma Atoi_examples: "Atoi ''10'' = Some 10" "Atoi ''2'' = Some 2" "Atoi ''0'' = Some 0"
  by (simp_all add: Atoi_def is_digit_def digits_value_def)

lemma digits_fold_nonneg:
  "list_all is_digit ds \<Longrightarrow> 0 \<le> n \<Longrightarrow>
   0 \<le> fold (\<lambda>c n. n * 10 + (of_char c - 48)) ds (n :: int)"
proof (induction ds arbitrary: n)
  case Nil
  then show ?case by simp
next
  case (Cons c ds)
  from Cons.prems(1) have "(48 :: nat) \<le> of_char c"
    by (simp add: is_digit_def less_eq_char_def)
  then have "int 48 \<le> int (of_char c)" by (simp only: of_nat_le_iff)
  then have "(48 :: int) \<le> of_char c" by (simp add: of_nat_of_char)
  with Cons.prems(2) have "0 \<le> n * 10 + (of_char c - 48)" by simp
  with Cons show ?case by simp
qed

lemma digits_value_nonneg: "list_all is_digit ds \<Longrightarrow> 0 \<le> digits_value ds"
  by (simp add: digits_value_def digits_fold_nonneg)

text \<open>
  What \<^verbatim>\<open>strconv.Atoi\<close> accepts: the integer literals whose value fits a 64-bit
  \<^verbatim>\<open>int\<close>, and nothing else.
\<close>

lemma Atoi_accepts_iff:
  "Atoi s \<noteq> None \<longleftrightarrow>
     integer_literal s \<and> - (2 ^ 63) \<le> literal_value s \<and> literal_value s < 2 ^ 63"
proof (cases s)
  case Nil
  then show ?thesis by (simp add: Atoi_def integer_literal_def)
next
  case (Cons c r)
  show ?thesis
  proof (cases "c = CHR ''-''")
    case True
    then show ?thesis
      using Cons digits_value_nonneg [of r]
      by (auto simp: Atoi_def integer_literal_def literal_value_def Let_def)
  next
    case False
    then show ?thesis
      using Cons digits_value_nonneg [of r] digits_value_nonneg [of s]
      by (auto simp: Atoi_def integer_literal_def literal_value_def Let_def)
  qed
qed

lemma Atoi_out_of_range: "Atoi ''9223372036854775808'' = None"
  by (simp add: Atoi_def is_digit_def digits_value_def)

lemma map_insort_key: "map f (insort_key f x xs) = insort (f x) (map f xs)"
  by (induction xs) auto

lemma map_sort_key: "map f (sort_key f xs) = sort (map f xs)"
  by (induction xs) (auto simp: map_insort_key)

section \<open>The merge lattice\<close>

lemma set_qm_absent: "map_of q k = None \<Longrightarrow> set_qm q k v = q @ [(k, v)]"
proof -
  assume a: "map_of q k = None"
  have "AList.update k v q = q @ [(k, v)]" using a
    by (induction q) (auto split: if_splits)
  then show ?thesis using a by (simp add: set_qm.simps)
qed

lemma set_qm_new: "set_qm newQueryMap k v = [(k, v)]"
  by (simp add: newQueryMap_def set_qm_absent)

lemma set_qm_map_of:
  "map_of (set_qm q key v) =
     (map_of q)(key \<mapsto>
       (case map_of q key of
          None \<Rightarrow> v
        | Some e \<Rightarrow>
           (case (e, v) of
              (Str a, Str b) \<Rightarrow> StrList [a, b]
            | (Str a, StrList b) \<Rightarrow> StrList (a # b)
            | (Str a, AnyList b) \<Rightarrow> AnyList (Str a # b)
            | (Str a, QMap b) \<Rightarrow> AnyList [Str a, QMap b]
            | (StrList a, Str b) \<Rightarrow> StrList (a @ [b])
            | (StrList a, StrList b) \<Rightarrow> StrList (a @ b)
            | (StrList a, AnyList b) \<Rightarrow> AnyList (map Str a @ b)
            | (StrList a, QMap b) \<Rightarrow> AnyList (map Str a @ [QMap b])
            | (AnyList a, Str b) \<Rightarrow> AnyList (a @ [Str b])
            | (AnyList a, StrList b) \<Rightarrow> AnyList (a @ map Str b)
            | (AnyList a, AnyList b) \<Rightarrow> AnyList (a @ b)
            | (AnyList a, QMap b) \<Rightarrow> AnyList (a @ [QMap b])
            | (QMap a, Str b) \<Rightarrow> AnyList [QMap a, Str b]
            | (QMap a, StrList b) \<Rightarrow> AnyList (QMap a # map Str b)
            | (QMap a, AnyList b) \<Rightarrow> AnyList (QMap a # b)
            | (QMap a, QMap b) \<Rightarrow> QMap (fold (\<lambda>kv m. set_qm m (fst kv) (snd kv)) b a)
            | _ \<Rightarrow> e)))"
proof (cases "map_of q key")
  case None
  then show ?thesis by (simp add: set_qm.simps [of q key v] update_conv')
next
  case (Some e)
  then have same: "(map_of q)(key \<mapsto> e) = map_of q" by (simp add: fun_upd_idem_iff)
  show ?thesis
    unfolding set_qm.simps [of q key v]
    using Some same
    by (cases e; cases v) (simp_all add: update_conv')
qed

lemma set_qm_other: "k \<noteq> key \<Longrightarrow> map_of (set_qm q key v) k = map_of q k"
  by (simp add: set_qm_map_of)

lemma set_qm_at_cong:
  "map_of q key = map_of q' key \<Longrightarrow>
   map_of (set_qm q key v) key = map_of (set_qm q' key v) key"
  by (simp add: set_qm_map_of)

text \<open>
  The deep merge does not depend on the order in which \<^verbatim>\<open>range value\<close> visits the
  incoming map: every key of the incoming map is set once, on the entry the existing
  map had at that key.
\<close>

lemma deep_merge_pointwise:
  "distinct (map fst b) \<Longrightarrow>
   map_of (fold (\<lambda>kv m. set_qm m (fst kv) (snd kv)) b a) k =
     (case map_of b k of None \<Rightarrow> map_of a k | Some v \<Rightarrow> map_of (set_qm a k v) k)"
proof (induction b arbitrary: a)
  case Nil
  then show ?case by simp
next
  case (Cons kv b)
  obtain k' v' where kv: "kv = (k', v')" by (cases kv)
  from Cons.prems kv have d: "distinct (map fst b)" and nin: "k' \<notin> fst ` set b" by auto
  have IH: "map_of (fold (\<lambda>kv m. set_qm m (fst kv) (snd kv)) b (set_qm a k' v')) k =
     (case map_of b k of None \<Rightarrow> map_of (set_qm a k' v') k
      | Some v \<Rightarrow> map_of (set_qm (set_qm a k' v') k v) k)"
    using Cons.IH [OF d] .
  show ?case
  proof (cases "k = k'")
    case True
    with nin have "map_of b k = None" by (simp add: map_of_eq_None_iff)
    with IH True kv show ?thesis by simp
  next
    case False
    then have "map_of (set_qm a k' v') k = map_of a k" by (simp add: set_qm_other)
    with IH False kv show ?thesis
      by (auto split: option.splits dest: set_qm_at_cong)
  qed
qed

text \<open>
  C1. For every map \<open>q\<close>, key and incoming value, \<^verbatim>\<open>set\<close> changes the map at that key
  only. An absent key receives the incoming value as it is. Otherwise the new value is
  read off the table of (existing, incoming): two strings give the \<^verbatim>\<open>[]string\<close> of
  both; lists are concatenated, existing first, and the result is an \<^verbatim>\<open>anyList\<close> as soon
  as an \<^verbatim>\<open>anyList\<close> or a \<^verbatim>\<open>QueryMap\<close> takes part; a \<^verbatim>\<open>QueryMap\<close> met with anything but a
  \<^verbatim>\<open>QueryMap\<close> goes into the \<^verbatim>\<open>anyList\<close> as one item; two maps are merged by applying
  \<^verbatim>\<open>set\<close> on the existing map for each entry of the incoming one. Every combination of
  the four shapes has its row, and the function is total. For an incoming map (keys
  distinct) the merged map holds, at each key of the incoming map, what one \<^verbatim>\<open>set\<close> of
  that entry on the existing map gives, and the existing entry elsewhere.
\<close>

theorem set_merge_lattice:
  "map_of (set_qm q key v) =
     (map_of q)(key \<mapsto>
       (case map_of q key of
          None \<Rightarrow> v
        | Some e \<Rightarrow>
           (case (e, v) of
              (Str a, Str b) \<Rightarrow> StrList [a, b]
            | (Str a, StrList b) \<Rightarrow> StrList (a # b)
            | (Str a, AnyList b) \<Rightarrow> AnyList (Str a # b)
            | (Str a, QMap b) \<Rightarrow> AnyList [Str a, QMap b]
            | (StrList a, Str b) \<Rightarrow> StrList (a @ [b])
            | (StrList a, StrList b) \<Rightarrow> StrList (a @ b)
            | (StrList a, AnyList b) \<Rightarrow> AnyList (map Str a @ b)
            | (StrList a, QMap b) \<Rightarrow> AnyList (map Str a @ [QMap b])
            | (AnyList a, Str b) \<Rightarrow> AnyList (a @ [Str b])
            | (AnyList a, StrList b) \<Rightarrow> AnyList (a @ map Str b)
            | (AnyList a, AnyList b) \<Rightarrow> AnyList (a @ b)
            | (AnyList a, QMap b) \<Rightarrow> AnyList (a @ [QMap b])
            | (QMap a, Str b) \<Rightarrow> AnyList [QMap a, Str b]
            | (QMap a, StrList b) \<Rightarrow> AnyList (QMap a # map Str b)
            | (QMap a, AnyList b) \<Rightarrow> AnyList (QMap a # b)
            | (QMap a, QMap b) \<Rightarrow> QMap (fold (\<lambda>kv m. set_qm m (fst kv) (snd kv)) b a)
            | _ \<Rightarrow> e)))
   \<and> (distinct (map fst incoming) \<longrightarrow>
        map_of (fold (\<lambda>kv m. set_qm m (fst kv) (snd kv)) incoming existing) k =
          (case map_of incoming k of
             None \<Rightarrow> map_of existing k
           | Some x \<Rightarrow> map_of (set_qm existing k x) k))"
  using set_qm_map_of [of q key v] deep_merge_pointwise [of incoming existing k]
  by blast

text \<open>
  The witness is the last case of \<^verbatim>\<open>TestQueryMapSet\<close>: a map set on a map.
\<close>

theorem set_merge_lattice_witness:
  "distinct (map fst [(''v'', Str ''1'' :: 'o val)])
   \<and> map_of (set_qm [(''a'', QMap [(''b'', Str ''1'')])] ''a'' (QMap [(''v'', Str ''1'' :: 'o val)])) ''a''
       = Some (QMap [(''b'', Str ''1''), (''v'', Str ''1'')])
   \<and> map_of (fold (\<lambda>kv m. set_qm m (fst kv) (snd kv)) [(''v'', Str ''1'' :: 'o val)]
               [(''b'', Str ''1'')]) ''v'' = Some (Str ''1'')"
  using set_merge_lattice [of "[(''a'', QMap [(''b'', Str ''1'')])]" "''a''"
      "QMap [(''v'', Str ''1'' :: 'o val)]" "[(''v'', Str ''1'' :: 'o val)]"
      "[(''b'', Str ''1'' :: 'o val)]" "''v''"]
  by (simp add: set_qm.simps)

section \<open>The normalizer\<close>

lemma count_keys_fold:
  "fold (\<lambda>kv (total, keyAreNumbers).
             (total + 1, if Atoi (fst kv) \<noteq> None then keyAreNumbers + 1 else keyAreNumbers))
          value (t, n) =
    (t + int (length value), n + int (length (filter (\<lambda>kv. Atoi (fst kv) \<noteq> None) value)))"
  by (induction "value" arbitrary: t n) auto

lemma count_keys_eq_iff:
  "fst (count_keys value) = snd (count_keys value) \<longleftrightarrow>
   list_all (\<lambda>kv. Atoi (fst kv) \<noteq> None) value"
proof -
  have "length xs = length (filter P xs) \<longleftrightarrow> list_all P xs"
    for P and xs :: "(string \<times> 'a val) list"
  proof (induction xs)
    case Nil
    then show ?case by simp
  next
    case (Cons x xs)
    show ?case
    proof (cases "P x")
      case True
      with Cons show ?thesis by simp
    next
      case False
      have "length (filter P xs) < Suc (length xs)"
        by (simp add: le_imp_less_Suc)
      with False show ?thesis by simp
    qed
  qed
  moreover have "count_keys value =
      (int (length value), int (length (filter (\<lambda>kv. Atoi (fst kv) \<noteq> None) value)))"
    unfolding count_keys_def count_keys_fold by simp
  ultimately show ?thesis by simp
qed

lemma Normalize_numeric:
  "list_all (\<lambda>kv. Atoi (fst kv) \<noteq> None) value \<Longrightarrow>
   NormalizeSlicesNumbersIndexes (QMap value) =
     AnyList (map (index_map value) (sort (map fst value)))"
  by (simp add: count_keys_eq_iff)

lemma Normalize_object:
  "\<not> list_all (\<lambda>kv. Atoi (fst kv) \<noteq> None) value \<Longrightarrow>
   NormalizeSlicesNumbersIndexes (QMap value) =
     QMap (map (\<lambda>kv. (fst kv, NormalizeSlicesNumbersIndexes (snd kv))) value)"
  by (simp add: count_keys_eq_iff)

lemma sorted_values:
  assumes "distinct (map fst value)"
  shows "map (index_map value) (sort (map fst value)) = map snd (sort_key fst value)"
proof -
  have "sort (map fst value) = map fst (sort_key fst value)"
    by (simp add: map_sort_key)
  moreover have "index_map value (fst p) = snd p" if "p \<in> set value" for p
  proof -
    from that have "(fst p, snd p) \<in> set value" by simp
    with assms have "map_of value (fst p) = Some (snd p)" by (rule_tac map_of_is_SomeI)
    then show ?thesis by (simp add: index_map_def)
  qed
  ultimately show ?thesis by simp
qed

text \<open>
  A tree without numeric maps is left as it is, so a second pass changes nothing once
  the first pass has removed every numeric map.
\<close>

lemma Normalize_fixpoint: "numeric_free v \<Longrightarrow> NormalizeSlicesNumbersIndexes v = v"
proof (induction v rule: NormalizeSlicesNumbersIndexes.induct)
  case (3 m)
  then have nn: "fst (count_keys m) \<noteq> snd (count_keys m)"
    by (simp add: count_keys_eq_iff)
  have "map (\<lambda>kv. (fst kv, NormalizeSlicesNumbersIndexes (snd kv))) m = map (\<lambda>kv. kv) m"
  proof (rule map_cong [OF refl])
    fix kv assume "kv \<in> set m"
    with 3 nn have "NormalizeSlicesNumbersIndexes (snd kv) = snd kv"
      by (simp add: list_all_iff)
    then show "(fst kv, NormalizeSlicesNumbersIndexes (snd kv)) = kv" by simp
  qed
  with nn show ?case by simp
next
  case (4 xs)
  then have "map NormalizeSlicesNumbersIndexes xs = map (\<lambda>x. x) xs"
    by (intro map_cong refl) (simp add: list_all_iff)
  then show ?case by simp
qed simp_all

lemma Normalize_idempotent_if_numeric_free:
  "numeric_free (NormalizeSlicesNumbersIndexes v) \<Longrightarrow>
   NormalizeSlicesNumbersIndexes (NormalizeSlicesNumbersIndexes v)
     = NormalizeSlicesNumbersIndexes v"
  by (rule Normalize_fixpoint)

text \<open>
  C2. The claim: normalizing twice gives what normalizing once gives. The code does
  not do so. In the branch where all keys are numbers the values are appended to the new
  list as they are, while the other two branches normalize what they hold. A numeric
  map inside a numeric map survives the first pass as a map inside a list and is folded
  by the second pass only. The input is what \<^verbatim>\<open>a[0][0]=x\<close> parses to.
\<close>

theorem Normalize_twice_differs:
  "NormalizeSlicesNumbersIndexes (QMap [(''0'', QMap [(''0'', Str ''x'')])])
     = AnyList [QMap [(''0'', Str ''x'')]]
   \<and> NormalizeSlicesNumbersIndexes
        (NormalizeSlicesNumbersIndexes (QMap [(''0'', QMap [(''0'', Str ''x'')])]))
     = AnyList [AnyList [Str ''x'']]
   \<and> FromValues [(''a[0][0]'', [''x''])] = Inr [(''a'', AnyList [QMap [(''0'', Str ''x'')]])]"
  by (simp add: count_keys_def Atoi_examples index_map_def FromValues_def nestedQuery.simps
      set_qm.simps newQueryMap_def index_values_def slice_to_def slice_from_def)

text \<open>
  C3. The claim: a non-empty map whose keys are all valid base-10 integer literals is
  replaced by the list of its values. It is not when a key is a literal that does not
  fit an \<^verbatim>\<open>int\<close>: the test of the code is \<^verbatim>\<open>strconv.Atoi\<close>, which gives a range error
  for \<^verbatim>\<open>9223372036854775808\<close> (\<open>2^63\<close>), so a map with that key stays a map. The
  query \<^verbatim>\<open>a[9223372036854775808]=x\<close> builds such a map.
\<close>

theorem Normalize_out_of_range_literal_key_stays_map:
  "integer_literal ''9223372036854775808''
   \<and> [(''9223372036854775808'', Str ''x'')] \<noteq> []
   \<and> NormalizeSlicesNumbersIndexes (QMap [(''9223372036854775808'', Str ''x'')])
       = QMap [(''9223372036854775808'', Str ''x'')]
   \<and> (\<forall>xs. NormalizeSlicesNumbersIndexes (QMap [(''9223372036854775808'', Str ''x'')])
         \<noteq> AnyList xs)
   \<and> FromValues [(''a[9223372036854775808]'', [''x''])]
       = Inr [(''a'', QMap [(''9223372036854775808'', Str ''x'')])]"
  by (simp add: integer_literal_def is_digit_def count_keys_def Atoi_out_of_range
      FromValues_def nestedQuery.simps set_qm.simps newQueryMap_def index_values_def
      slice_to_def slice_from_def)

text \<open>
  C3, amended. A non-empty map, all of whose keys are base-10 integer literals with a
  value in the range of \<^verbatim>\<open>int\<close> (\<open>-2^63 .. 2^63 - 1\<close>: the keys \<^verbatim>\<open>strconv.Atoi\<close>
  accepts), is replaced by the \<^verbatim>\<open>anyList\<close> of its values in the order of its keys sorted
  as strings. The order is that of the text, not of the numbers: \<^verbatim>\<open>"10"\<close> is below
  \<^verbatim>\<open>"2"\<close>, and the value under \<^verbatim>\<open>"10"\<close> comes first. (The keys of a Go map are
  distinct.)
\<close>

theorem Normalize_numeric_keys_text_order:
  assumes "value \<noteq> []" and "distinct (map fst value)"
    and "\<forall>k \<in> set (map fst value).
           integer_literal k \<and> - (2 ^ 63) \<le> literal_value k \<and> literal_value k < 2 ^ 63"
  shows "NormalizeSlicesNumbersIndexes (QMap value) = AnyList (map snd (sort_key fst value))
    \<and> sorted (map fst (sort_key fst value))
    \<and> ''10'' < ''2''
    \<and> NormalizeSlicesNumbersIndexes (QMap [(''2'', Str ''two''), (''10'', Str ''ten'')])
        = AnyList [Str ''ten'', Str ''two'']"
proof -
  from assms(3) have "\<forall>k \<in> set (map fst value). Atoi k \<noteq> None"
    by (simp only: Atoi_accepts_iff)
  then have "list_all (\<lambda>kv. Atoi (fst kv) \<noteq> None) value"
    by (simp add: list_all_iff)
  then have "NormalizeSlicesNumbersIndexes (QMap value) = AnyList (map snd (sort_key fst value))"
    using assms(2) by (simp only: Normalize_numeric sorted_values)
  moreover have "''10'' < ''2''" by simp
  moreover have "NormalizeSlicesNumbersIndexes (QMap [(''2'', Str ''two''), (''10'', Str ''ten'')])
        = AnyList [Str ''ten'', Str ''two'']"
    by (simp add: count_keys_def Atoi_examples index_map_def)
  ultimately show ?thesis by simp
qed

theorem Normalize_numeric_keys_text_order_witness:
  "[(''2'', Str ''two''), (''10'', Str ''ten''), (''1'', Str ''one'')] \<noteq> []
   \<and> distinct (map fst [(''2'', Str ''two''), (''10'', Str ''ten''), (''1'', Str ''one'')])
   \<and> list_all (\<lambda>k. integer_literal k \<and> - (2 ^ 63) \<le> literal_value k \<and> literal_value k < 2 ^ 63)
        (map fst [(''2'', Str ''two''), (''10'', Str ''ten''), (''1'', Str ''one'')])
   \<and> NormalizeSlicesNumbersIndexes
        (QMap [(''2'', Str ''two''), (''10'', Str ''ten''), (''1'', Str ''one'')])
      = AnyList [Str ''one'', Str ''ten'', Str ''two'']"
  using Normalize_numeric_keys_text_order
    [of "[(''2'', Str ''two''), (''10'', Str ''ten''), (''1'', Str ''one'')]"]
  by (simp add: Atoi_def integer_literal_def literal_value_def is_digit_def digits_value_def
      count_keys_def index_map_def)

text \<open>
  C4. The claim: an empty map, or a map with a key that is not a number, stays a map.
  The empty map does not: the test is \<^verbatim>\<open>total == keyAreNumbers\<close>, which holds of
  \<open>0\<close> and \<open>0\<close>, and the result is the empty \<^verbatim>\<open>anyList\<close>.
\<close>

theorem Normalize_empty_map_is_list:
  "NormalizeSlicesNumbersIndexes (QMap []) = AnyList []
   \<and> (\<forall>m. NormalizeSlicesNumbersIndexes (QMap []) \<noteq> QMap m)"
  by (simp add: count_keys_def)

text \<open>
  C4, amended. A map with at least one key that \<^verbatim>\<open>strconv.Atoi\<close> rejects is returned
  as a map with the same keys, in which every value is normalized. The empty map is
  returned as the empty \<^verbatim>\<open>anyList\<close>.
\<close>

theorem Normalize_keeps_object:
  assumes "\<exists>k \<in> set (map fst value). Atoi k = None"
  shows "NormalizeSlicesNumbersIndexes (QMap value)
      = QMap (map (\<lambda>kv. (fst kv, NormalizeSlicesNumbersIndexes (snd kv))) value)
    \<and> map fst (map (\<lambda>kv. (fst kv, NormalizeSlicesNumbersIndexes (snd kv))) value)
      = map fst value
    \<and> NormalizeSlicesNumbersIndexes (QMap []) = AnyList []"
proof -
  from assms have "\<not> list_all (\<lambda>kv. Atoi (fst kv) \<noteq> None) value"
    by (auto simp: list_all_iff)
  then have "NormalizeSlicesNumbersIndexes (QMap value)
      = QMap (map (\<lambda>kv. (fst kv, NormalizeSlicesNumbersIndexes (snd kv))) value)"
    by (rule Normalize_object)
  moreover have "NormalizeSlicesNumbersIndexes (QMap []) = AnyList []"
    by (simp add: count_keys_def)
  ultimately show ?thesis by (simp add: comp_def)
qed

theorem Normalize_keeps_object_witness:
  "list_ex (\<lambda>k. Atoi k = None) (map fst [(''0'', QMap [(''1'', Str ''x'')]), (''b'', Str ''y'')])
   \<and> NormalizeSlicesNumbersIndexes (QMap [(''0'', QMap [(''1'', Str ''x'')]), (''b'', Str ''y'')])
      = QMap [(''0'', AnyList [Str ''x'']), (''b'', Str ''y'')]"
  using Normalize_keeps_object [of "[(''0'', QMap [(''1'', Str ''x'')]), (''b'', Str ''y'')]"]
  by (simp add: Atoi_def is_digit_def digits_value_def count_keys_def index_map_def)

text \<open>
  C10. A value that is none of the four shapes, the nil interface value included, is
  returned as it is.
\<close>

theorem Normalize_other_unchanged:
  "\<not> tree_shape v \<Longrightarrow> NormalizeSlicesNumbersIndexes v = v"
  by (cases v) simp_all

theorem Normalize_other_unchanged_witness:
  "\<not> tree_shape (Nil :: unit val) \<and> NormalizeSlicesNumbersIndexes (Nil :: unit val) = Nil
   \<and> \<not> tree_shape (Other (7 :: int)) \<and> NormalizeSlicesNumbersIndexes (Other (7 :: int)) = Other 7"
  using Normalize_other_unchanged [of "Nil :: unit val"]
    Normalize_other_unchanged [of "Other (7 :: int)"]
  by simp

section \<open>The key-path parser\<close>

lemma nestedQuery_plain:
  assumes "CHR ''['' \<notin> set key" "CHR '']'' \<notin> set key"
  shows "nestedQuery data key vs =
     Inr (set_qm data key (if length vs = 1 then Str (vs ! 0) else StrList vs))"
  using assms by (simp add: nestedQuery.simps [of data key vs] IndexRune_notin)

lemma nestedQuery_last_segment:
  assumes "CHR ''['' \<notin> set name" "CHR '']'' \<notin> set name" "name \<noteq> []"
  shows "nestedQuery data (name @ '']'') vs =
     Inr (set_qm data name (if length vs = 1 then Str (vs ! 0) else StrList vs))"
  using assms
  by (subst nestedQuery.simps)
     (simp add: IndexRune_notin IndexRune_append_notin Let_def slice_to_def)

lemma nestedQuery_no_open_leaf:
  assumes "CHR ''['' \<notin> set key" and "key \<noteq> '']''"
  shows "\<exists>ck. \<forall>data :: 'o QueryMap. nestedQuery data key vs =
     Inr (set_qm data ck (if length vs = 1 then Str (vs ! 0) else StrList vs))"
proof (cases "CHR '']'' \<in> set key")
  case False
  with assms(1) show ?thesis using nestedQuery_plain by blast
next
  case True
  define e where "e = IndexRune key CHR '']''"
  have s: "IndexRune key CHR ''['' = - 1" using assms(1) by (rule IndexRune_notin)
  have eb: "0 \<le> e" "e < int (length key)"
    using True IndexRune_in by (auto simp: e_def)
  have nth: "key ! nat e = CHR '']''" using True by (simp add: e_def IndexRune_nth)
  have not115: "\<not> (e = 0 \<and> e + 1 = int (length key))"
  proof
    assume a: "e = 0 \<and> e + 1 = int (length key)"
    then have "length key = 1" by simp
    then obtain c where "key = [c]" by (cases key) auto
    with nth a have "key = '']''" by simp
    with assms(2) show False by contradiction
  qed
  define ck where "ck = (if int (length key) = e + 1 then take (nat e) key else key)"
  have "nestedQuery data key vs =
     Inr (set_qm data ck (if length vs = 1 then Str (vs ! 0) else StrList vs))"
    for data :: "'o QueryMap"
    using eb not115
    by (subst nestedQuery.simps)
       (auto simp: s e_def [symmetric] Let_def slice_to_def ck_def)
  then show ?thesis by blast
qed

text \<open>
  The key \<^verbatim>\<open>]\<close> alone does not reach the last branch: with \<^verbatim>\<open>nextStart = -1\<close> and
  \<^verbatim>\<open>nextEnd = 0\<close> the test for a final empty bracket group holds, and the values are
  stored as a \<^verbatim>\<open>[]string\<close> under the empty name. No other key leads to it.
\<close>

lemma nestedQuery_lone_close:
  "nestedQuery data '']'' vs = Inr (set_qm data [] (StrList vs))"
  by (subst nestedQuery.simps) (simp add: Let_def slice_to_def)

text \<open>
  One call of \<^verbatim>\<open>nestedQuery\<close> on a key that has both brackets: the current key is
  sliced without a panic, and the call either stores the value list or descends into the
  rest of the key.
\<close>

lemma nestedQuery_both:
  fixes key :: string and vs :: "string list"
  defines "s \<equiv> IndexRune key CHR ''[''" and "e \<equiv> IndexRune key CHR '']''"
  assumes "CHR ''['' \<in> set key" "CHR '']'' \<in> set key"
  shows "\<exists>ck. \<forall>data :: 'o QueryMap. nestedQuery data key vs =
     (if (s + 1 = e \<and> e + 1 = int (length key)) \<or> (s > e \<and> drop (nat s) key = ''[]'')
      then Inr (set_qm data ck (StrList vs))
      else (case nestedQuery newQueryMap (drop (nat (if e < s then e + 2 else s + 1)) key) vs of
              Inl p \<Rightarrow> Inl p | Inr sub \<Rightarrow> Inr (set_qm data ck (QMap sub))))"
proof -
  have sb: "0 \<le> s" "s < int (length key)" and eb: "0 \<le> e" "e < int (length key)"
    using assms IndexRune_in by auto
  define cur where "cur = (if s = -1 \<and> e \<noteq> -1 \<and> int (length key) = e + 1
                then slice_to key e
              else if s \<noteq> -1 \<and> e \<noteq> -1 \<and> s + 1 = e
                then slice_to key s
              else if e + 1 = s
                then slice_to key e
              else if s \<noteq> -1 \<and> s < e
                then slice_to key s
              else Inr key)"
  have "\<exists>ck. cur = Inr ck"
    using sb eb by (simp add: cur_def slice_to_def)
  then obtain ck where ck: "cur = Inr ck" ..
  have c2: "(e \<noteq> -1 \<and> s > e \<and> slice_from key s = Inr ''[]'' \<and> s + 2 = int (length key))
      \<longleftrightarrow> (s > e \<and> drop (nat s) key = ''[]'')"
  proof -
    have "s + 2 = int (length key)" if "drop (nat s) key = ''[]''"
    proof -
      from that have "length (drop (nat s) key) = 2" by simp
      with sb show ?thesis by simp
    qed
    with sb eb show ?thesis by (auto simp: slice_from_def)
  qed
  have nk: "(if e \<noteq> -1 \<and> e < s then slice_from key (e + 2) else slice_from key (s + 1))
      = Inr (drop (nat (if e < s then e + 2 else s + 1)) key)"
    using sb eb by (auto simp: slice_from_def)
  have "nestedQuery data key vs =
     (if (s + 1 = e \<and> e + 1 = int (length key)) \<or> (s > e \<and> drop (nat s) key = ''[]'')
      then Inr (set_qm data ck (StrList vs))
      else (case nestedQuery newQueryMap (drop (nat (if e < s then e + 2 else s + 1)) key) vs of
              Inl p \<Rightarrow> Inl p | Inr sub \<Rightarrow> Inr (set_qm data ck (QMap sub))))"
    for data :: "'o QueryMap"
  proof -
    have "nestedQuery data key vs =
      (case cur of Inl p \<Rightarrow> Inl p
        | Inr currentKey \<Rightarrow>
            if (s + 1 = e \<and> e + 1 = int (length key))
               \<or> (e \<noteq> -1 \<and> s > e \<and> slice_from key s = Inr ''[]'' \<and> s + 2 = int (length key))
            then Inr (set_qm data currentKey (StrList vs))
            else if s \<noteq> -1 then
              (case (if e \<noteq> -1 \<and> e < s then slice_from key (e + 2)
                     else slice_from key (s + 1)) of
                 Inl p \<Rightarrow> Inl p
               | Inr nextKey \<Rightarrow>
                   (case nestedQuery newQueryMap nextKey vs of
                      Inl p \<Rightarrow> Inl p
                    | Inr sub \<Rightarrow> Inr (set_qm data currentKey (QMap sub))))
            else if length vs = 1 then Inr (set_qm data currentKey (Str (vs ! 0)))
            else Inr (set_qm data currentKey (StrList vs)))"
      unfolding cur_def s_def e_def
      by (subst nestedQuery.simps) (simp only: Let_def)
    also have "\<dots> = (if (s + 1 = e \<and> e + 1 = int (length key)) \<or> (s > e \<and> drop (nat s) key = ''[]'')
      then Inr (set_qm data ck (StrList vs))
      else (case nestedQuery newQueryMap (drop (nat (if e < s then e + 2 else s + 1)) key) vs of
              Inl p \<Rightarrow> Inl p | Inr sub \<Rightarrow> Inr (set_qm data ck (QMap sub))))"
      unfolding ck c2 nk using sb by simp
    finally show ?thesis .
  qed
  then show ?thesis by blast
qed

lemma nestedQuery_append_marker:
  "\<exists>k ks. \<forall>data :: 'o QueryMap.
      nestedQuery data (p @ ''[]'') vs = Inr (set_qm data k (nest ks (StrList vs)))"
proof (induction p rule: length_induct)
  case (1 p)
  define key where "key = p @ ''[]''"
  define s where "s = IndexRune key CHR ''[''"
  define e where "e = IndexRune key CHR '']''"
  have inb: "CHR ''['' \<in> set key" "CHR '']'' \<in> set key" by (simp_all add: key_def)
  have sb: "0 \<le> s" and eb: "0 \<le> e"
    using inb IndexRune_in by (auto simp: s_def e_def)
  from nestedQuery_both [OF inb, of vs, where 'o = 'o] obtain ck
    where step: "\<And>data :: 'o QueryMap. nestedQuery data key vs =
     (if (s + 1 = e \<and> e + 1 = int (length key)) \<or> (s > e \<and> drop (nat s) key = ''[]'')
      then Inr (set_qm data ck (StrList vs))
      else (case nestedQuery newQueryMap (drop (nat (if e < s then e + 2 else s + 1)) key) vs of
              Inl p \<Rightarrow> Inl p | Inr sub \<Rightarrow> Inr (set_qm data ck (QMap sub))))"
    unfolding s_def e_def by blast
  show ?case
  proof (cases "(s + 1 = e \<and> e + 1 = int (length key)) \<or> (s > e \<and> drop (nat s) key = ''[]'')")
    case True
    then have "\<forall>data :: 'o QueryMap.
        nestedQuery data key vs = Inr (set_qm data ck (nest [] (StrList vs)))"
      using step by simp
    then show ?thesis unfolding key_def by blast
  next
    case False
    define n where "n = nat (if e < s then e + 2 else s + 1)"
    have inp: "CHR ''['' \<in> set p"
    proof (rule ccontr)
      assume nin: "CHR ''['' \<notin> set p"
      then have s: "s = int (length p)"
        by (simp add: s_def key_def IndexRune_append_notin)
      then have d: "drop (nat s) key = ''[]''" by (simp add: key_def)
      show False
      proof (cases "CHR '']'' \<in> set p")
        case True
        then have "e < int (length p)"
          using IndexRune_in [of "CHR '']''" p] by (simp add: e_def key_def IndexRune_append_in)
        with s d False show False by simp
      next
        case False
        then have "e = int (length p) + 1"
          by (simp add: e_def key_def IndexRune_append_notin Let_def)
        with s \<open>\<not> ((s + 1 = e \<and> e + 1 = int (length key)) \<or> (s > e \<and> drop (nat s) key = ''[]''))\<close>
        show False by (simp add: key_def)
      qed
    qed
    then have slt: "s < int (length p)"
      using IndexRune_in [of "CHR ''[''" p] by (simp add: s_def key_def IndexRune_append_in)
    have n: "1 \<le> n" "n \<le> length p"
      using sb eb slt by (auto simp: n_def)
    then have dk: "drop n key = drop n p @ ''[]''" and shorter: "length (drop n p) < length p"
      by (simp_all add: key_def)
    from 1 shorter obtain k' ks' where
      IH: "\<And>data :: 'o QueryMap. nestedQuery data (drop n p @ ''[]'') vs
             = Inr (set_qm data k' (nest ks' (StrList vs)))"
      by blast
    have "nestedQuery (newQueryMap :: 'o QueryMap) (drop n key) vs
        = Inr [(k', nest ks' (StrList vs))]"
      by (simp add: dk IH set_qm_new)
    then have "\<forall>data :: 'o QueryMap.
        nestedQuery data key vs = Inr (set_qm data ck (nest (k' # ks') (StrList vs)))"
      using step False by (simp add: n_def)
    then show ?thesis unfolding key_def by blast
  qed
qed

lemma nestedQuery_name_marker:
  assumes "CHR ''['' \<notin> set name" "CHR '']'' \<notin> set name"
  shows "nestedQuery data (name @ ''[]'') vs = Inr (set_qm data name (StrList vs))"
  using assms
  by (simp add: nestedQuery.simps [of data "name @ ''[]''" vs] IndexRune_append_notin Let_def
      slice_to_def)

lemma nestedQuery_inner_marker:
  assumes "CHR ''['' \<notin> set name" "CHR '']'' \<notin> set name" "r \<noteq> '']''"
  shows "nestedQuery (data :: 'o QueryMap) (name @ ''[]['' @ r) vs =
    (case nestedQuery newQueryMap r vs of
       Inl p \<Rightarrow> Inl p
     | Inr sub \<Rightarrow> Inr (set_qm data name (QMap [('''', QMap sub)])))"
proof -
  have inner: "nestedQuery (newQueryMap :: 'o QueryMap) (''][''@ r) vs =
     (case nestedQuery newQueryMap r vs of
       Inl p \<Rightarrow> Inl p
     | Inr sub \<Rightarrow> Inr [('''', QMap sub)])" (is "?l = ?r")
    using assms(3)
    by (subst nestedQuery.simps)
       (simp add: Let_def slice_to_def slice_from_def set_qm_new cong: sum.case_cong)
  have suc: "nat (int (length name) + 1) = Suc (length name)" by simp
  have "nestedQuery data (name @ ''[]['' @ r) vs =
     (case nestedQuery newQueryMap (''][''@ r) vs of
        Inl p \<Rightarrow> Inl p | Inr sub \<Rightarrow> Inr (set_qm data name (QMap sub)))"
    using assms(1,2)
    by (subst nestedQuery.simps)
       (simp add: IndexRune_append_notin Let_def slice_to_def slice_from_def suc
          cong: sum.case_cong)
  then show ?thesis
    using inner by (simp split: sum.splits)
qed

lemma closed_brackets_drop: "closed_brackets k \<Longrightarrow> closed_brackets (drop n k)"
proof (induction k arbitrary: n)
  case Nil
  then show ?case by simp
next
  case (Cons c k)
  then show ?case by (cases n) auto
qed

lemma closed_brackets_has_close:
  "closed_brackets k \<Longrightarrow> CHR ''['' \<in> set k \<Longrightarrow> CHR '']'' \<in> set k"
  by (induction k) auto

lemma nestedQuery_no_open:
  assumes "CHR ''['' \<notin> set key"
  shows "\<exists>q. nestedQuery data key vs = Inr q"
proof -
  have s: "IndexRune key CHR ''['' = - 1" using assms by (rule IndexRune_notin)
  have e: "- 1 \<le> IndexRune key CHR '']''" by (rule IndexRune_ge)
  have e': "IndexRune key CHR '']'' < int (length key) \<or> IndexRune key CHR '']'' = -1"
    using IndexRune_in [of "CHR '']''" key] IndexRune_notin [of "CHR '']''" key] by blast
  show ?thesis
    using e e' by (auto simp: nestedQuery.simps [of data key vs] s Let_def slice_to_def)
qed

lemma nestedQuery_closed_total:
  "closed_brackets key \<Longrightarrow> \<exists>q. nestedQuery (data :: 'o QueryMap) key vs = Inr q"
proof (induction key arbitrary: data rule: length_induct)
  case (1 key)
  show ?case
  proof (cases "CHR ''['' \<in> set key")
    case False
    then show ?thesis by (rule nestedQuery_no_open)
  next
    case True
    with 1(2) have cl: "CHR '']'' \<in> set key" by (rule_tac closed_brackets_has_close)
    define s where "s = IndexRune key CHR ''[''"
    define e where "e = IndexRune key CHR '']''"
    have sb: "0 \<le> s" "0 \<le> e"
      using True cl IndexRune_in by (auto simp: s_def e_def)
    define n where "n = nat (if e < s then e + 2 else s + 1)"
    from nestedQuery_both [OF True cl, of vs, where 'o = 'o] obtain ck
      where step: "\<And>data :: 'o QueryMap. nestedQuery data key vs =
       (if (s + 1 = e \<and> e + 1 = int (length key)) \<or> (s > e \<and> drop (nat s) key = ''[]'')
        then Inr (set_qm data ck (StrList vs))
        else (case nestedQuery newQueryMap (drop n key) vs of
                Inl p \<Rightarrow> Inl p | Inr sub \<Rightarrow> Inr (set_qm data ck (QMap sub))))"
      unfolding s_def e_def n_def by blast
    have "1 \<le> n" using sb by (auto simp: n_def)
    moreover have "key \<noteq> []" using True by auto
    ultimately have "length (drop n key) < length key" by simp
    moreover have "closed_brackets (drop n key)" using 1(2) by (rule closed_brackets_drop)
    ultimately obtain sub :: "'o QueryMap" where "nestedQuery newQueryMap (drop n key) vs = Inr sub"
      using 1(1) by blast
    then show ?thesis using step [of data] by simp
  qed
qed

lemma nestedQuery_open_first_panics:
  "CHR '']'' \<notin> set r \<Longrightarrow> nestedQuery data (CHR ''['' # r) vs = Inl SliceBoundsOutOfRange"
  by (simp add: nestedQuery.simps [of data "CHR ''['' # r" vs] IndexRune_notin Let_def slice_to_def)

lemma nestedQuery_segment_marker:
  assumes "CHR ''['' \<notin> set seg" "CHR '']'' \<notin> set seg"
  shows "nestedQuery data (seg @ ''][]'') vs = Inr (set_qm data seg (StrList vs))"
proof -
  have suc: "nat (int (length seg) + 1) = Suc (length seg)" by simp
  show ?thesis
    using assms
    by (subst nestedQuery.simps)
       (simp add: IndexRune_append_notin Let_def slice_to_def slice_from_def suc)
qed

lemma nestedQuery_segment_inner_marker:
  assumes "CHR ''['' \<notin> set seg" "CHR '']'' \<notin> set seg" "r \<noteq> '']''"
  shows "nestedQuery (data :: 'o QueryMap) (seg @ ''][]['' @ r) vs =
    (case nestedQuery newQueryMap r vs of
       Inl p \<Rightarrow> Inl p
     | Inr sub \<Rightarrow> Inr (set_qm data seg (QMap [([], QMap sub)])))"
proof -
  have inner: "nestedQuery (newQueryMap :: 'o QueryMap) (''][''@ r) vs =
     (case nestedQuery newQueryMap r vs of
       Inl p \<Rightarrow> Inl p
     | Inr sub \<Rightarrow> Inr [([], QMap sub)])"
    using assms(3)
    by (subst nestedQuery.simps)
       (simp add: Let_def slice_to_def slice_from_def set_qm_new cong: sum.case_cong)
  have suc: "nat (int (length seg) + 2) = Suc (Suc (length seg))" by simp
  have "nestedQuery data (seg @ ''][]['' @ r) vs =
     (case nestedQuery newQueryMap (''][''@ r) vs of
        Inl p \<Rightarrow> Inl p | Inr sub \<Rightarrow> Inr (set_qm data seg (QMap sub)))"
    using assms(1,2)
    by (subst nestedQuery.simps)
       (simp add: IndexRune_append_notin Let_def slice_to_def slice_from_def suc
          cong: sum.case_cong)
  then show ?thesis
    using inner by (simp split: sum.splits)
qed

text \<open>
  C6. A key that ends in the empty bracket group stores the list of raw values, as a
  \<^verbatim>\<open>[]string\<close>, at the end of a path of nested maps, whatever comes before the group
  and however many values there are; after a plain name (\<^verbatim>\<open>name[]\<close>, or the rest
  \<^verbatim>\<open>seg][]\<close> of a longer key) it is stored at that name. An empty bracket group that
  is followed by another group gets no such treatment: it is the key \<^verbatim>\<open>""\<close> of a map
  at that level, under which the rest of the key is parsed. So
  \<^verbatim>\<open>names[][firstName]=John\<close> is a map in a map in a map.
\<close>

theorem append_marker_only_last:
  assumes "CHR ''['' \<notin> set name" and "CHR '']'' \<notin> set name" and "r \<noteq> '']''"
  shows "(\<exists>k ks. \<forall>data :: 'o QueryMap.
            nestedQuery data (p @ ''[]'') vs = Inr (set_qm data k (nest ks (StrList vs))))
    \<and> nestedQuery (data :: 'o QueryMap) (name @ ''[]'') vs
        = Inr (set_qm data name (StrList vs))
    \<and> nestedQuery data (name @ ''][]'') vs
        = Inr (set_qm data name (StrList vs))
    \<and> nestedQuery data (name @ ''[]['' @ r) vs
        = (case nestedQuery newQueryMap r vs of
             Inl e \<Rightarrow> Inl e
           | Inr sub \<Rightarrow> Inr (set_qm data name (QMap [([], QMap sub)])))
    \<and> nestedQuery data (name @ ''][]['' @ r) vs
        = (case nestedQuery newQueryMap r vs of
             Inl e \<Rightarrow> Inl e
           | Inr sub \<Rightarrow> Inr (set_qm data name (QMap [([], QMap sub)])))
    \<and> (FromValues [(''names[][firstName]'', [''John''])] :: panic + 'o QueryMap)
        = Inr [(''names'', QMap [([], QMap [(''firstName'', Str ''John'')])])]"
proof -
  have "(FromValues [(''names[][firstName]'', [''John''])] :: panic + 'o QueryMap)
        = Inr [(''names'', QMap [([], QMap [(''firstName'', Str ''John'')])])]"
    by (simp add: FromValues_def nestedQuery.simps set_qm.simps newQueryMap_def
        index_values_def slice_to_def slice_from_def count_keys_def Atoi_def is_digit_def)
  then show ?thesis
    using nestedQuery_append_marker [of p vs, where 'o = 'o]
      nestedQuery_name_marker [OF assms(1,2), of data vs]
      nestedQuery_segment_marker [OF assms(1,2), of data vs]
      nestedQuery_inner_marker [OF assms, of data vs]
      nestedQuery_segment_inner_marker [OF assms, of data vs]
    by simp
qed

theorem append_marker_only_last_witness:
  "CHR ''['' \<notin> set ''names'' \<and> CHR '']'' \<notin> set ''names'' \<and> ''firstName]'' \<noteq> '']''
   \<and> nestedQuery ([] :: unit QueryMap) ''names[]'' [''John'', ''Jane'']
       = Inr [(''names'', StrList [''John'', ''Jane''])]
   \<and> nestedQuery ([] :: unit QueryMap) ''names[][firstName]'' [''John'']
       = Inr [(''names'', QMap [([], QMap [(''firstName'', Str ''John'')])])]
   \<and> nestedQuery ([] :: unit QueryMap) ''a[b][]'' [''1'']
       = Inr [(''a'', QMap [(''b'', StrList [''1''])])]
   \<and> nestedQuery ([] :: unit QueryMap) ''a[names][][firstName]'' [''John'']
       = Inr [(''a'', QMap [(''names'', QMap [([], QMap [(''firstName'', Str ''John'')])])])]"
  using append_marker_only_last
      [where 'o = unit, of "''names''" "''firstName]''" "''a[b]''" "[''1'']" "[]"]
    append_marker_only_last
      [where 'o = unit, of "''names''" "''firstName]''" "''a[b]''" "[''John'', ''Jane'']" "[]"]
  by (simp add: nestedQuery.simps set_qm.simps newQueryMap_def slice_to_def slice_from_def)

lemma nestedQuery_unclosed_inner:
  assumes "CHR ''['' \<notin> set name" "CHR '']'' \<notin> set name" "name \<noteq> []"
    and "CHR ''['' \<notin> set rest" "CHR '']'' \<notin> set rest"
  shows "nestedQuery (data :: 'o QueryMap) (name @ CHR ''['' # rest) vs =
     Inr (set_qm data (name @ CHR ''['' # rest)
            (QMap [(rest, if length vs = 1 then Str (vs ! 0) else StrList vs)]))"
proof -
  have sub: "nestedQuery (newQueryMap :: 'o QueryMap) rest vs =
      Inr [(rest, if length vs = 1 then Str (vs ! 0) else StrList vs)]"
    using assms(4,5) by (simp add: nestedQuery_plain set_qm_new)
  have suc: "nat (int (length name) + 1) = Suc (length name)" by simp
  show ?thesis
    using assms
    by (subst nestedQuery.simps)
       (simp add: IndexRune_append_notin IndexRune_notin Let_def slice_to_def slice_from_def
          suc sub)
qed

text \<open>
  C9. The claim: a key with an opening bracket that is never closed is parsed without
  a failure. The code fails on such a key when the bracket is its first character: with
  \<^verbatim>\<open>nextStart = 0\<close> and \<^verbatim>\<open>nextEnd = -1\<close> the third condition \<^verbatim>\<open>nextEnd+1 == nextStart\<close>
  holds and \<^verbatim>\<open>key[:nextEnd]\<close> is \<^verbatim>\<open>key[:-1]\<close>. When a plain name comes before the
  bracket and plain text after it, as in the claim's own example \<^verbatim>\<open>a[b\<close>, the key is
  parsed: the whole key is kept as the name, with the text after the bracket nested
  under it.
\<close>

theorem nestedQuery_open_bracket_first_panics:
  assumes "CHR '']'' \<notin> set r"
    and "CHR ''['' \<notin> set name" and "CHR '']'' \<notin> set name" and "name \<noteq> []"
    and "CHR ''['' \<notin> set rest" and "CHR '']'' \<notin> set rest"
  shows "nestedQuery (data :: 'o QueryMap) (CHR ''['' # r) vs = Inl SliceBoundsOutOfRange
     \<and> nestedQuery data (name @ CHR ''['' # rest) vs
         = Inr (set_qm data (name @ CHR ''['' # rest)
                  (QMap [(rest, if length vs = 1 then Str (vs ! 0) else StrList vs)]))"
  using nestedQuery_open_first_panics [OF assms(1), of data vs]
    nestedQuery_unclosed_inner [OF assms(2-6), of data vs]
  by simp

theorem nestedQuery_open_bracket_first_panics_witness:
  "CHR '']'' \<notin> set ''a'' \<and> CHR ''['' \<notin> set ''a'' \<and> ''a'' \<noteq> []
   \<and> CHR ''['' \<notin> set ''b'' \<and> CHR '']'' \<notin> set ''b''
   \<and> nestedQuery ([] :: unit QueryMap) ''[a'' [''1''] = Inl SliceBoundsOutOfRange
   \<and> nestedQuery ([] :: unit QueryMap) ''a[b'' [''1'']
       = Inr [(''a[b'', QMap [(''b'', Str ''1'')])]"
  using nestedQuery_open_bracket_first_panics
      [where 'o = unit, of "''a''" "''a''" "''b''" "[]" "[''1'']"]
  by (simp add: set_qm.simps)

section \<open>The pipeline\<close>

lemma ingest_cong_map: "map_of a = map_of b \<Longrightarrow> ingest a ks d = ingest b ks d"
  by (induction ks arbitrary: d) (auto simp: index_values_def split: sum.splits)

lemma sort_keys_perm:
  assumes "distinct (map fst a)" "distinct (map fst b)" "set a = set b"
  shows "sort (map fst a) = sort (map fst b)"
proof -
  have "sort (map fst a) = sorted_list_of_set (set (map fst a))"
    using assms(1) by (simp add: sorted_list_of_set_sort_remdups distinct_remdups_id del: set_map)
  also have "set (map fst a) = set (map fst b)" using assms(3) by simp
  also have "sorted_list_of_set (set (map fst b)) = sort (map fst b)"
    using assms(2) by (simp add: sorted_list_of_set_sort_remdups distinct_remdups_id del: set_map)
  finally show ?thesis .
qed

lemma FromValues_perm:
  assumes "distinct (map fst a)" "distinct (map fst b)" "set a = set b"
  shows "(FromValues a :: panic + 'o QueryMap) = FromValues b"
proof -
  have "map_of a = map_of b" using assms by (simp add: map_of_inject_set)
  then have "ingest a ks d = ingest b ks d" for ks and d :: "'o QueryMap"
    by (rule ingest_cong_map)
  then show ?thesis
    by (simp add: FromValues_def sort_keys_perm [OF assms])
qed

lemma ingest_plain:
  assumes "\<forall>k \<in> set ks. CHR ''['' \<notin> set k \<and> CHR '']'' \<notin> set k" "distinct ks"
    "set ks \<inter> fst ` set data = {}"
  shows "ingest uq ks data =
    Inr (data @ map (\<lambda>k. (k, if length (index_values uq k) = 1 then Str (index_values uq k ! 0)
                              else StrList (index_values uq k))) ks)"
  using assms
proof (induction ks arbitrary: data)
  case Nil
  then show ?case by simp
next
  case (Cons k ks)
  define leaf :: "'a val" where
    "leaf = (if length (index_values uq k) = 1 then Str (index_values uq k ! 0)
             else StrList (index_values uq k))"
  have none: "map_of data k = None"
    using Cons.prems(3) by (simp add: map_of_eq_None_iff)
  have nq: "nestedQuery data k (index_values uq k) = Inr (data @ [(k, leaf)])"
    using Cons.prems(1) none by (simp add: nestedQuery_plain set_qm_absent leaf_def)
  have "set ks \<inter> fst ` set (data @ [(k, leaf)]) = {}"
    using Cons.prems(2,3) by auto
  with Cons.IH [of "data @ [(k, leaf)]"] Cons.prems(1,2)
  show ?case by (simp add: nq leaf_def)
qed

lemma FromValues_plain:
  assumes "distinct (map fst uq)"
    and "\<forall>k \<in> set (map fst uq). CHR ''['' \<notin> set k \<and> CHR '']'' \<notin> set k"
  shows "(FromValues uq :: panic + 'o QueryMap) =
    Inr (map (\<lambda>k. (k, if length (index_values uq k) = 1 then Str (index_values uq k ! 0)
                              else StrList (index_values uq k))) (sort (map fst uq)))"
proof -
  have "ingest uq (sort (map fst uq)) (newQueryMap :: 'o QueryMap) =
     Inr (newQueryMap @ map (\<lambda>k. (k, if length (index_values uq k) = 1 then Str (index_values uq k ! 0)
                              else StrList (index_values uq k))) (sort (map fst uq)))"
    using assms by (intro ingest_plain) (auto simp: newQueryMap_def)
  then show ?thesis
    by (simp add: FromValues_def newQueryMap_def comp_def
        if_distrib [of NormalizeSlicesNumbersIndexes])
qed

lemma FromValues_plain_single:
  assumes "distinct (map fst uq)"
    and "\<forall>k \<in> set (map fst uq). CHR ''['' \<notin> set k \<and> CHR '']'' \<notin> set k"
    and "\<forall>vs \<in> set (map snd uq). length vs = 1"
  shows "(FromValues uq :: panic + 'o QueryMap) =
    Inr (map (\<lambda>k. (k, Str (hd (index_values uq k)))) (sort (map fst uq)))"
proof -
  have "length (index_values uq k) = 1" if "k \<in> set (sort (map fst uq))" for k
  proof -
    from that obtain vs where in_uq: "(k, vs) \<in> set uq" by auto
    with assms(1) have "map_of uq k = Some vs" by (rule_tac map_of_is_SomeI)
    moreover from in_uq assms(3) have "length vs = 1" by force
    ultimately show ?thesis by (simp add: index_values_def)
  qed
  moreover have "xs ! 0 = hd xs" if "length xs = 1" for xs :: "string list"
    using that by (cases xs) auto
  ultimately have "map (\<lambda>k. (k, if length (index_values uq k) = 1 then Str (index_values uq k ! 0)
                              else StrList (index_values uq k))) (sort (map fst uq))
      = map (\<lambda>k. (k, Str (hd (index_values uq k)) :: 'o val)) (sort (map fst uq))"
    by (intro map_cong refl) simp
  with FromValues_plain [OF assms(1,2), where 'o = 'o] show ?thesis by simp
qed

lemma ingest_closed_total:
  "\<forall>k \<in> set ks. closed_brackets k \<Longrightarrow> \<exists>q. ingest uq ks (data :: 'o QueryMap) = Inr q"
proof (induction ks arbitrary: data)
  case Nil
  then show ?case by simp
next
  case (Cons k ks)
  then have "closed_brackets k" by simp
  then obtain d :: "'o QueryMap" where "nestedQuery data k (index_values uq k) = Inr d"
    using nestedQuery_closed_total by blast
  with Cons show ?case by simp
qed

text \<open>
  What the pipeline does on every input whose keys close their brackets: it returns a
  map. (\<^verbatim>\<open>nestedQuery\<close> itself terminates on every key: each call descends into a
  strictly shorter suffix, which is the measure of its termination proof.)
\<close>

lemma FromValues_closed_total:
  assumes "\<forall>k \<in> set (map fst uq). closed_brackets k"
  shows "\<exists>q :: 'o QueryMap. FromValues uq = Inr q"
proof -
  from assms have "\<forall>k \<in> set (sort (map fst uq)). closed_brackets k" by simp
  then obtain d :: "'o QueryMap" where "ingest uq (sort (map fst uq)) newQueryMap = Inr d"
    using ingest_closed_total by blast
  then show ?thesis by (simp add: FromValues_def)
qed

lemma ingest_panics:
  assumes "k \<in> set ks" and "\<And>d :: 'o QueryMap. nestedQuery d k (index_values uq k) = Inl p"
  shows "ingest uq ks (data :: 'o QueryMap) = Inl SliceBoundsOutOfRange"
  using assms(1)
proof (induction ks arbitrary: data)
  case Nil
  then show ?case by simp
next
  case (Cons k' ks)
  have one: "x = SliceBoundsOutOfRange" for x :: panic by (cases x) simp
  show ?case
  proof (cases "nestedQuery data k' (index_values uq k')")
    case (Inl x)
    then show ?thesis using one [of x] by simp
  next
    case (Inr d)
    with assms(2) [of data] have "k' \<noteq> k" by auto
    with Cons.prems have "k \<in> set ks" by simp
    with Cons.IH Inr show ?thesis by simp
  qed
qed

text \<open>
  C5. The keys are run in sorted order, so the result does not depend on the order
  in which the input map is iterated: two association lists for the same map (distinct
  keys, the same entries) give the same result. Which value is the existing one is
  decided by that order: \<^verbatim>\<open>"b"\<close> is below \<^verbatim>\<open>"b[]"\<close>, so \<^verbatim>\<open>b[]=1&b=2\<close> gives
  \<^verbatim>\<open>["2","1"]\<close> and \<^verbatim>\<open>b=1&b[]=2\<close> gives \<^verbatim>\<open>["1","2"]\<close>.
\<close>

theorem FromValues_sorted_key_order:
  assumes "distinct (map fst a)" and "distinct (map fst b)" and "set a = set b"
  shows "(FromValues a :: panic + 'o QueryMap) = FromValues b
    \<and> ''b'' < ''b[]''
    \<and> (FromValues [(''b[]'', [''1'']), (''b'', [''2''])] :: panic + 'o QueryMap)
        = Inr [(''b'', StrList [''2'', ''1''])]
    \<and> (FromValues [(''b'', [''1'']), (''b[]'', [''2''])] :: panic + 'o QueryMap)
        = Inr [(''b'', StrList [''1'', ''2''])]"
proof -
  have "(FromValues [(''b[]'', [''1'']), (''b'', [''2''])] :: panic + 'o QueryMap)
        = Inr [(''b'', StrList [''2'', ''1''])]"
    by (simp add: FromValues_def nestedQuery.simps set_qm.simps newQueryMap_def
        index_values_def slice_to_def slice_from_def)
  moreover have "(FromValues [(''b'', [''1'']), (''b[]'', [''2''])] :: panic + 'o QueryMap)
        = Inr [(''b'', StrList [''1'', ''2''])]"
    by (simp add: FromValues_def nestedQuery.simps set_qm.simps newQueryMap_def
        index_values_def slice_to_def slice_from_def)
  moreover have "''b'' < ''b[]''" by simp
  ultimately show ?thesis
    using FromValues_perm [OF assms, where 'o = 'o] by simp
qed

theorem FromValues_sorted_key_order_witness:
  "distinct (map fst [(''b[]'', [''1'']), (''b'', [''2''])])
   \<and> distinct (map fst [(''b'', [''2'']), (''b[]'', [''1''])])
   \<and> set [(''b[]'', [''1'']), (''b'', [''2''])] = set [(''b'', [''2'']), (''b[]'', [''1''])]
   \<and> (FromValues [(''b[]'', [''1'']), (''b'', [''2''])] :: panic + unit QueryMap)
       = FromValues [(''b'', [''2'']), (''b[]'', [''1''])]"
  using FromValues_sorted_key_order
    [where 'o = unit,
     of "[(''b[]'', [''1'']), (''b'', [''2''])]" "[(''b'', [''2'']), (''b[]'', [''1''])]"]
  by auto

text \<open>
  What the parser does at the end of the path. When no opening bracket is left in the
  key it is called on, the lone \<^verbatim>\<open>]\<close> apart, it stores a single value as a string and
  any other number of values as a \<^verbatim>\<open>[]string\<close>, under a name that does not depend on
  the map: the key itself for a plain name, the name for the rest \<^verbatim>\<open>name]\<close> of a bracket
  group. So for an input whose keys are distinct and have no brackets, the result has
  exactly the raw keys, and when each key has one value every value is that string.
\<close>

lemma plain_keys_scalar_leaves:
  assumes "distinct (map fst urlQuery)"
    and "\<forall>k \<in> set (map fst urlQuery). CHR ''['' \<notin> set k \<and> CHR '']'' \<notin> set k"
    and "CHR ''['' \<notin> set key" and "key \<noteq> '']''"
  shows "(\<exists>ck. \<forall>data :: 'o QueryMap. nestedQuery data key vs
            = Inr (set_qm data ck (if length vs = 1 then Str (vs ! 0) else StrList vs)))
    \<and> (CHR '']'' \<notin> set key \<longrightarrow>
         nestedQuery (data :: 'o QueryMap) key vs
           = Inr (set_qm data key (if length vs = 1 then Str (vs ! 0) else StrList vs)))
    \<and> (CHR '']'' \<notin> set key \<and> key \<noteq> [] \<longrightarrow>
         nestedQuery data (key @ '']'') vs
           = Inr (set_qm data key (if length vs = 1 then Str (vs ! 0) else StrList vs)))
    \<and> (FromValues urlQuery :: panic + 'o QueryMap)
        = Inr (map (\<lambda>k. (k, if length (index_values urlQuery k) = 1
                             then Str (index_values urlQuery k ! 0)
                             else StrList (index_values urlQuery k)))
                 (sort (map fst urlQuery)))
    \<and> ((\<forall>vs \<in> set (map snd urlQuery). length vs = 1) \<longrightarrow>
         (FromValues urlQuery :: panic + 'o QueryMap)
           = Inr (map (\<lambda>k. (k, Str (hd (index_values urlQuery k)))) (sort (map fst urlQuery))))"
  using nestedQuery_no_open_leaf [OF assms(3,4), of vs, where 'o = 'o]
    nestedQuery_plain [OF assms(3), of data vs]
    nestedQuery_last_segment [OF assms(3), of data vs]
    FromValues_plain [OF assms(1,2), where 'o = 'o]
    FromValues_plain_single [OF assms(1,2), where 'o = 'o]
  by blast

text \<open>
  The lemma at the first case of \<^verbatim>\<open>TestFromURL\<close>, with a key of two values added.
\<close>

lemma plain_keys_scalar_leaves_example:
  "distinct (map fst [(''c'', [''2'']), (''b'', [''1''])])
   \<and> list_all (\<lambda>k. CHR ''['' \<notin> set k \<and> CHR '']'' \<notin> set k) (map fst [(''c'', [''2'']), (''b'', [''1''])])
   \<and> list_all (\<lambda>vs. length vs = 1) (map snd [(''c'', [''2'']), (''b'', [''1''])])
   \<and> CHR ''['' \<notin> set ''d'' \<and> CHR '']'' \<notin> set ''d'' \<and> ''d'' \<noteq> [] \<and> ''d'' \<noteq> '']''
   \<and> (FromValues [(''c'', [''2'']), (''b'', [''1''])] :: panic + unit QueryMap)
       = Inr [(''b'', Str ''1''), (''c'', Str ''2'')]
   \<and> nestedQuery [(''b'', Str ''1'' :: unit val)] ''d'' [''3'', ''4'']
       = Inr [(''b'', Str ''1''), (''d'', StrList [''3'', ''4''])]
   \<and> nestedQuery [(''b'', Str ''1'' :: unit val)] ''d]'' [''3'']
       = Inr [(''b'', Str ''1''), (''d'', Str ''3'')]"
  using plain_keys_scalar_leaves [where 'o = unit, of "[(''c'', [''2'']), (''b'', [''1''])]"
      "''d''" "[''3'', ''4'']" "[(''b'', Str ''1'')]"]
    plain_keys_scalar_leaves [where 'o = unit, of "[(''c'', [''2'']), (''b'', [''1''])]"
      "''d''" "[''3'']" "[(''b'', Str ''1'')]"]
  by (simp add: index_values_def set_qm.simps)

text \<open>
  C7. The claim: at the end of the path a key with exactly one value gets that value
  as a string, and a key with more values gets the \<^verbatim>\<open>[]string\<close>. The code does so for
  every key without an opening bracket but one (the lemma above). For the raw key
  \<^verbatim>\<open>]\<close> it does not: \<^verbatim>\<open>nextStart = -1\<close> and \<^verbatim>\<open>nextEnd = 0\<close> satisfy
  \<^verbatim>\<open>nextStart+1 == nextEnd && nextEnd+1 == len(key)\<close>, the test written for a key that
  ends in \<^verbatim>\<open>[]\<close>, and the single value of the query \<^verbatim>\<open>]=1\<close> is stored as the
  \<^verbatim>\<open>[]string\<close> of one element under the empty name.
\<close>

theorem lone_close_bracket_single_value_is_list:
  "nestedQuery (data :: 'o QueryMap) '']'' vs = Inr (set_qm data [] (StrList vs))
   \<and> (FromValues [('']'', [v])] :: panic + 'o QueryMap) = Inr [([], StrList [v])]
   \<and> (FromValues [('']'', [''1''])] :: panic + 'o QueryMap) = Inr [([], StrList [''1''])]
   \<and> CHR ''['' \<notin> set '']'' \<and> length [''1''] = 1"
  using nestedQuery_lone_close [of data vs]
  by (simp add: FromValues_def nestedQuery_lone_close newQueryMap_def index_values_def
      set_qm.simps)

text \<open>
  C8. The claim: the pipeline returns a map for every input. It does not: when a raw
  key begins with an opening bracket and has no closing bracket, \<^verbatim>\<open>nestedQuery\<close> panics
  on the slice \<^verbatim>\<open>key[:-1]\<close> (the defect of C9), and so does the pipeline, whatever the
  other keys are. The query \<^verbatim>\<open>[a=1\<close> is such an input.
\<close>

theorem FromValues_panics_on_open_bracket:
  assumes "CHR '']'' \<notin> set r" and "CHR ''['' # r \<in> set (map fst urlQuery)"
  shows "(FromValues urlQuery :: panic + 'o QueryMap) = Inl SliceBoundsOutOfRange"
proof -
  from assms(2) have "CHR ''['' # r \<in> set (sort (map fst urlQuery))" by simp
  moreover have "nestedQuery d (CHR ''['' # r) (index_values urlQuery (CHR ''['' # r))
      = Inl SliceBoundsOutOfRange" for d :: "'o QueryMap"
    using assms(1) by (rule nestedQuery_open_first_panics)
  ultimately have "ingest urlQuery (sort (map fst urlQuery)) (newQueryMap :: 'o QueryMap)
      = Inl SliceBoundsOutOfRange"
    by (rule ingest_panics)
  then show ?thesis by (simp add: FromValues_def)
qed

theorem FromValues_panics_on_open_bracket_witness:
  "CHR '']'' \<notin> set ''a'' \<and> list_ex (\<lambda>k. k = ''[a'') (map fst [(''[a'', [''1''])])
   \<and> (FromValues [(''[a'', [''1''])] :: panic + unit QueryMap) = Inl SliceBoundsOutOfRange"
  using FromValues_panics_on_open_bracket [where 'o = unit, of "''a''" "[(''[a'', [''1''])]"]
  by simp

end
